theory Spec2Isabelle
  imports Main
begin

section \<open>Strings and numbers of the host language\<close>

text \<open>
  A JavaScript string is a sequence of UTF-16 code units. The model is \<^typ>\<open>string\<close>, one
  \<^typ>\<open>char\<close> per code unit: it covers the strings whose code units are below 256 (ASCII
  and Latin-1), and the three built-in operations below are written out for that range.
\<close>

text \<open>
  A template literal renders an integral number in decimal, with a leading minus sign when
  it is negative (numbers of magnitude below \<open>10 ^ 21\<close>).
\<close>

definition digit_char :: "nat \<Rightarrow> char" where
  "digit_char d = ''0123456789'' ! d"

fun nat_toString :: "nat \<Rightarrow> string" where
  "nat_toString n =
     (if n < 10 then [digit_char n] else nat_toString (n div 10) @ [digit_char (n mod 10)])"

declare nat_toString.simps [simp del]

definition number_toString :: "int \<Rightarrow> string" where
  "number_toString i =
     (if i < 0 then CHR ''-'' # nat_toString (nat (- i)) else nat_toString (nat i))"

text \<open>
  \<^verbatim>\<open>encodeURIComponent\<close> keeps the unreserved characters (letters, digits and
  \<^verbatim>\<open>- _ . ! ~ * ' ( )\<close>) and writes every other code unit as the percent-escaped bytes
  of its UTF-8 encoding: one byte below 128, two bytes from 128 to 255.
\<close>

definition uri_unreserved :: "char \<Rightarrow> bool" where
  "uri_unreserved c =
     (c \<in> set (''ABCDEFGHIJKLMNOPQRSTUVWXYZabcdefghijklmnopqrstuvwxyz0123456789-_.!~*()''
                @ [CHR 0x27]))"

definition hex_digit :: "nat \<Rightarrow> char" where
  "hex_digit d = ''0123456789ABCDEF'' ! d"

definition percent_byte :: "nat \<Rightarrow> string" where
  "percent_byte b = [CHR ''%'', hex_digit (b div 16), hex_digit (b mod 16)]"

definition encode_unit :: "char \<Rightarrow> string" where
  "encode_unit c =
     (let n = (of_char c :: nat)
      in if uri_unreserved c then [c]
         else if n < 128 then percent_byte n
         else percent_byte (192 + n div 64) @ percent_byte (128 + n mod 64))"

definition encodeURIComponent :: "string \<Rightarrow> string" where
  "encodeURIComponent s = concat (map encode_unit s)"

text \<open>
  \<^verbatim>\<open>String.prototype.toLowerCase\<close>: below 256 the upper-case letters are \<open>A\<close> to
  \<open>Z\<close> and the Latin-1 letters \<open>0xC0\<close> to \<open>0xDE\<close> without the multiplication sign
  \<open>0xD7\<close>; each has its lower-case form 32 places further.
\<close>

definition lower_unit :: "char \<Rightarrow> char" where
  "lower_unit c =
     (let n = (of_char c :: nat)
      in if (65 \<le> n \<and> n \<le> 90) \<or> (192 \<le> n \<and> n \<le> 222 \<and> n \<noteq> 215)
         then char_of (n + 32) else c)"

definition toLowerCase :: "string \<Rightarrow> string" where
  "toLowerCase s = map lower_unit s"

text \<open>\<^verbatim>\<open>s.startsWith(p)\<close> and \<^verbatim>\<open>s.includes(p)\<close>, to speak about the request URL.\<close>

fun startsWith :: "string \<Rightarrow> string \<Rightarrow> bool" where
  "startsWith s [] = True"
| "startsWith [] (p # ps) = False"
| "startsWith (c # cs) (p # ps) = (c = p \<and> startsWith cs ps)"

fun str_includes :: "string \<Rightarrow> string \<Rightarrow> bool" where
  "str_includes [] p = (p = [])"
| "str_includes (c # cs) p = (startsWith (c # cs) p \<or> str_includes cs p)"

section \<open>Pagination range (App.tsx, paginationRange)\<close>

text \<open>
  A page marker is either a page number or the string \<^verbatim>\<open>"ellipsis"\<close>.
\<close>

datatype page_marker = Page int | Ellipsis

text \<open>
  Page numbers are JavaScript numbers, that is doubles. The model keeps the integral values
  as integers and rounds the result of every addition and subtraction of the pagination
  code as the double arithmetic does: to the nearest number with a significand of 53 bits,
  a tie going to the even significand. Below \<open>2 ^ 53\<close> every integer is such a number
  and the arithmetic is exact; from \<open>2 ^ 53\<close> on the numbers are \<open>ulp\<close> apart, and
  \<open>2 ^ 53 + 1\<close> rounds back to \<open>2 ^ 53\<close>. (Finite values only: the overflow to
  infinity beyond \<open>2 ^ 1024\<close> is not modelled.)
\<close>

fun ulp :: "nat \<Rightarrow> nat" where
  "ulp n = (if n < 2 ^ 53 then 1 else 2 * ulp (n div 2))"

declare ulp.simps [simp del]

definition round_nat :: "nat \<Rightarrow> nat" where
  "round_nat n =
     (let u = ulp n; q = n div u; r = n mod u
      in if 2 * r < u then q * u
         else if 2 * r > u then (q + 1) * u
         else if even q then q * u else (q + 1) * u)"

definition round_double :: "int \<Rightarrow> int" where
  "round_double x = (if x < 0 then - int (round_nat (nat (- x))) else int (round_nat (nat x)))"

definition js_add :: "int \<Rightarrow> int \<Rightarrow> int" where
  "js_add a b = round_double (a + b)"

definition js_sub :: "int \<Rightarrow> int \<Rightarrow> int" where
  "js_sub a b = round_double (a - b)"

text \<open>\<^verbatim>\<open>range.push(x)\<close> appends at the end of the array.\<close>

definition push :: "page_marker \<Rightarrow> page_marker list \<Rightarrow> page_marker list" where
  "push x rng = rng @ [x]"

text \<open>
  The loop \<^verbatim>\<open>for (let i = lo; i <= hi; i++) range.push(i)\<close>, started at \<open>i\<close>.
  Where \<^verbatim>\<open>i++\<close> does not advance the loop never ends: the result is then \<open>None\<close>.
\<close>

partial_function (option) push_loop ::
  "int \<Rightarrow> int \<Rightarrow> page_marker list \<Rightarrow> page_marker list option" where
  "push_loop i hi rng =
     (if i \<le> hi then push_loop (js_add i 1) hi (push (Page i) rng) else Some rng)"

text \<open>The range, or \<open>None\<close> when a loop in it never ends.\<close>

definition paginationRange :: "int \<Rightarrow> int \<Rightarrow> page_marker list option" where
  "paginationRange currentPage totalPages =
     (let rng = [];
          showEllipsis = totalPages > 7
      in if \<not> showEllipsis then push_loop 1 totalPages rng
         else if currentPage \<le> 4 then
           (case push_loop 1 5 rng of
              None \<Rightarrow> None
            | Some rng \<Rightarrow>
                (let rng = push Ellipsis rng
                 in Some (push (Page totalPages) rng)))
         else if currentPage \<ge> js_sub totalPages 3 then
           (let rng = push (Page 1) rng;
                rng = push Ellipsis rng
            in push_loop (js_sub totalPages 4) totalPages rng)
         else
           (let rng = push (Page 1) rng;
                rng = push Ellipsis rng
            in case push_loop (js_sub currentPage 1) (js_add currentPage 1) rng of
                 None \<Rightarrow> None
               | Some rng \<Rightarrow>
                   (let rng = push Ellipsis rng
                    in Some (push (Page totalPages) rng))))"

text \<open>The page numbers of a range, in order, and whether two ellipsis markers are neighbours.\<close>

fun page_numbers :: "page_marker list \<Rightarrow> int list" where
  "page_numbers [] = []"
| "page_numbers (Page p # ms) = p # page_numbers ms"
| "page_numbers (Ellipsis # ms) = page_numbers ms"

fun adjacent_ellipsis :: "page_marker list \<Rightarrow> bool" where
  "adjacent_ellipsis (Ellipsis # Ellipsis # ms) = True"
| "adjacent_ellipsis (m # ms) = adjacent_ellipsis ms"
| "adjacent_ellipsis [] = False"

section \<open>Constants and data model (App.tsx, lines 3 to 63)\<close>

definition BASE_URL :: string where
  "BASE_URL = ''https://rickandmortyapi.com/api''"

text \<open>The resource descriptors. The icon of each is presentation only and is left out.\<close>

record endpoint =
  endpoint_id :: string
  url :: string
  label :: string

definition ENDPOINTS :: "endpoint list" where
  "ENDPOINTS =
     [\<lparr>endpoint_id = ''character'', url = BASE_URL @ ''/character'', label = ''Characters''\<rparr>,
      \<lparr>endpoint_id = ''location'', url = BASE_URL @ ''/location'', label = ''Locations''\<rparr>,
      \<lparr>endpoint_id = ''episode'', url = BASE_URL @ ''/episode'', label = ''Episodes''\<rparr>]"

text \<open>\<^verbatim>\<open>STATUS_STYLES\<close>, an object literal with three own properties.\<close>

definition STATUS_STYLES :: "(string \<times> string) list" where
  "STATUS_STYLES =
     [(''alive'', ''bg-emerald-500 shadow-emerald-500/30''),
      (''dead'', ''bg-red-500 shadow-red-500/30''),
      (''unknown'', ''bg-gray-500 shadow-gray-500/30'')]"

text \<open>
  The page response and its items. Optional fields are options; the fields of an item
  that only the card markup reads (species, gender, image, location, origin, type,
  dimension, residents, characters, episode, air date, created) carry no logic.
\<close>

record api_info =
  count :: int
  pages :: int
  "next" :: "string option"
  prev :: "string option"

record result_item =
  item_id :: int
  name :: string
  status :: "string option"

record APIResponse =
  info :: api_info
  results :: "result_item list"

text \<open>The six \<^verbatim>\<open>useState\<close> cells of the component.\<close>

record ui_state =
  activeEndpoint :: string
  data :: "APIResponse option"
  currentPage :: int
  isLoading :: bool
  error :: "string option"
  searchTerm :: string

definition initial_state :: ui_state where
  "initial_state =
     \<lparr>activeEndpoint = ''character'', data = None, currentPage = 1, isLoading = False,
      error = None, searchTerm = []\<rparr>"

text \<open>\<^verbatim>\<open>const totalPages = data?.info?.pages || 1\<close>: a page count of 0 is falsy.\<close>

definition totalPages :: "ui_state \<Rightarrow> int" where
  "totalPages s =
     (case data s of None \<Rightarrow> 1
      | Some d \<Rightarrow> if pages (info d) = 0 then 1 else pages (info d))"

section \<open>The fetch coordinator (App.tsx, fetchData)\<close>

text \<open>
  What the network and the body parser can do. A thrown value is either an \<^verbatim>\<open>Error\<close>
  object, of which the handler reads the message, or some other value. A response has a
  status code, and \<^verbatim>\<open>response.ok\<close> is true exactly for the codes 200 to 299; reading
  its body as JSON yields a page response or throws.
\<close>

datatype thrown = ErrorObject string | OtherValue

datatype json_outcome = Parsed APIResponse | JsonThrows thrown

record response =
  response_status :: nat
  json :: json_outcome

datatype fetch_outcome = Rejected thrown | Responded response

definition ok :: "response \<Rightarrow> bool" where
  "ok r = (200 \<le> response_status r \<and> response_status r \<le> 299)"

text \<open>
  The observable steps of one call, in order: the three state setters and the request
  itself.
\<close>

datatype effect =
    SetIsLoading bool
  | SetError "string option"
  | SetData "APIResponse option"
  | Request string

definition is_request :: "effect \<Rightarrow> bool" where
  "is_request e = (case e of Request u \<Rightarrow> True | _ \<Rightarrow> False)"

text \<open>
  Lines 82 and 83: the search parameter and the URL. The test \<^verbatim>\<open>search ? ... : ""\<close> is
  on the term alone; an omitted term is falsy like the empty one, and both are \<open>[]\<close> here.
\<close>

definition searchParam :: "string \<Rightarrow> string" where
  "searchParam search = (if search \<noteq> [] then ''&name='' @ encodeURIComponent search else [])"

definition request_url :: "string \<Rightarrow> int \<Rightarrow> string \<Rightarrow> string" where
  "request_url endpoint page search =
     BASE_URL @ ''/'' @ endpoint @ ''?page='' @ number_toString page @ searchParam search"

text \<open>
  The \<^verbatim>\<open>try\<close> block: the steps it performs and the value it throws, if any. The
  parameter \<open>net\<close> is the answer of the network to a URL.
\<close>

definition try_block ::
  "(string \<Rightarrow> fetch_outcome) \<Rightarrow> string \<Rightarrow> int \<Rightarrow> string \<Rightarrow> effect list \<times> thrown option" where
  "try_block net endpoint page search =
     (let u = request_url endpoint page search
      in case net u of
           Rejected t \<Rightarrow> ([Request u], Some t)
         | Responded r \<Rightarrow>
             if \<not> ok r then
               ([Request u],
                Some (ErrorObject (''Failed to fetch: '' @ number_toString (int (response_status r)))))
             else (case json r of
                     JsonThrows t \<Rightarrow> ([Request u], Some t)
                   | Parsed result \<Rightarrow> ([Request u, SetData (Some result)], None)))"

definition catch_block :: "thrown \<Rightarrow> effect list" where
  "catch_block err =
     [SetError (Some (case err of ErrorObject message \<Rightarrow> message
                                | OtherValue \<Rightarrow> ''An error occurred'')),
      SetData None]"

definition fetchData ::
  "(string \<Rightarrow> fetch_outcome) \<Rightarrow> string \<Rightarrow> int \<Rightarrow> string \<Rightarrow> effect list" where
  "fetchData net endpoint page search =
     [SetIsLoading True, SetError None]
     @ (case try_block net endpoint page search of
          (steps, None) \<Rightarrow> steps
        | (steps, Some err) \<Rightarrow> steps @ catch_block err)
     @ [SetIsLoading False]"

text \<open>The steps applied to the state, in order.\<close>

fun apply_effect :: "ui_state \<Rightarrow> effect \<Rightarrow> ui_state" where
  "apply_effect s (SetIsLoading b) = s\<lparr>isLoading := b\<rparr>"
| "apply_effect s (SetError e) = s\<lparr>error := e\<rparr>"
| "apply_effect s (SetData d) = s\<lparr>data := d\<rparr>"
| "apply_effect s (Request u) = s"

definition run :: "effect list \<Rightarrow> ui_state \<Rightarrow> ui_state" where
  "run steps s = foldl apply_effect s steps"

section \<open>Event handlers (App.tsx, lines 106 to 115 and 361 to 397)\<close>

definition handleEndpointChange :: "string \<Rightarrow> ui_state \<Rightarrow> ui_state" where
  "handleEndpointChange endpointId s =
     s\<lparr>activeEndpoint := endpointId, currentPage := 1, searchTerm := []\<rparr>"

definition handleSearch :: "string \<Rightarrow> ui_state \<Rightarrow> ui_state" where
  "handleSearch term s = s\<lparr>searchTerm := term, currentPage := 1\<rparr>"

text \<open>
  The \<^verbatim>\<open>onClick\<close> handlers of the Previous and Next buttons. Their one addition and one
  subtraction are written with exact integers, which is what the double arithmetic gives
  for pages below \<open>2 ^ 53\<close>.
\<close>

datatype page_button = Previous | Next

fun press :: "ui_state \<Rightarrow> page_button \<Rightarrow> ui_state" where
  "press s Previous = s\<lparr>currentPage := max (currentPage s - 1) 1\<rparr>"
| "press s Next = s\<lparr>currentPage := min (currentPage s + 1) (totalPages s)\<rparr>"

section \<open>The status indicator (App.tsx, renderItem, lines 158 to 162)\<close>

text \<open>
  Reading a property of an object literal looks at its own properties first and then at
  the properties every object inherits from \<^verbatim>\<open>Object.prototype\<close>, which are functions
  (and, for \<^verbatim>\<open>__proto__\<close>, the prototype object itself). A value read is therefore a
  string, an inherited built-in, or \<^verbatim>\<open>undefined\<close>.
\<close>

datatype js_value = Undefined | Str string | Inherited string

definition Object_prototype :: "string list" where
  "Object_prototype =
     [''constructor'', ''__defineGetter__'', ''__defineSetter__'', ''hasOwnProperty'',
      ''__lookupGetter__'', ''__lookupSetter__'', ''isPrototypeOf'', ''propertyIsEnumerable'',
      ''toString'', ''valueOf'', ''__proto__'', ''toLocaleString'']"

definition get_property :: "(string \<times> string) list \<Rightarrow> string \<Rightarrow> js_value" where
  "get_property obj key =
     (case map_of obj key of
        Some v \<Rightarrow> Str v
      | None \<Rightarrow> if key \<in> set Object_prototype then Inherited key else Undefined)"

text \<open>Truthiness, as \<^verbatim>\<open>||\<close> tests it: the empty string and \<^verbatim>\<open>undefined\<close> are falsy.\<close>

definition truthy :: "js_value \<Rightarrow> bool" where
  "truthy v = (case v of Undefined \<Rightarrow> False | Str s \<Rightarrow> s \<noteq> [] | Inherited k \<Rightarrow> True)"

text \<open>
  \<^verbatim>\<open>item.status?.toLowerCase()\<close> used as a property key: a missing status gives
  \<^verbatim>\<open>undefined\<close>, which as a key is the string \<^verbatim>\<open>"undefined"\<close>.
\<close>

definition status_key :: "string option \<Rightarrow> string" where
  "status_key st = (case st of None \<Rightarrow> ''undefined'' | Some v \<Rightarrow> toLowerCase v)"

text \<open>
  \<^verbatim>\<open>STATUS_STYLES[item.status?.toLowerCase()] || STATUS_STYLES.unknown\<close>
\<close>

definition statusStyle :: "string option \<Rightarrow> js_value" where
  "statusStyle st =
     (let v = get_property STATUS_STYLES (status_key st)
      in if truthy v then v else get_property STATUS_STYLES ''unknown'')"

section \<open>Which view is rendered (App.tsx, lines 238 to 334)\<close>

datatype view = ErrorView | LoadingView | NoResultsView | ResultsView

text \<open>
  \<^verbatim>\<open>if (error)\<close> tests a string or null: null and the empty string are falsy. The main
  area then shows the spinner, the empty state when \<^verbatim>\<open>!data?.results?.length\<close>, or
  the grid.
\<close>

definition App_view :: "ui_state \<Rightarrow> view" where
  "App_view s =
     (if (case error s of None \<Rightarrow> False | Some message \<Rightarrow> message \<noteq> []) then ErrorView
      else if isLoading s then LoadingView
      else if (case data s of None \<Rightarrow> True | Some d \<Rightarrow> results d = []) then NoResultsView
      else ResultsView)"

section \<open>The controls the user can reach\<close>

text \<open>
  One event of the running component: a click on one of the three resource buttons, a
  change of the search box, a click on Previous or Next or on a numbered page button, or
  one state setter of a \<^verbatim>\<open>fetchData\<close> call in flight taking effect. A control that is
  not rendered, or is disabled, cannot fire: the step is then \<open>None\<close>.
  The error view replaces the whole layout; the search box is rendered only while the
  active resource is \<^verbatim>\<open>"character"\<close>; the pagination bar is rendered in the grid view
  when there is more than one page. The pagination range is computed at every render,
  before the view is chosen (line 117): while it does not return nothing is rendered.
\<close>

datatype ui_event =
    ClickEndpoint string
  | TypeSearch string
  | ClickPageButton page_button
  | ClickPage int
  | Setter effect

definition pagination_rendered :: "ui_state \<Rightarrow> bool" where
  "pagination_rendered s = (App_view s = ResultsView \<and> totalPages s > 1)"

text \<open>The controls of a render whose pagination range is \<open>rng\<close>.\<close>

fun fire :: "page_marker list \<Rightarrow> ui_state \<Rightarrow> ui_event \<Rightarrow> ui_state option" where
  "fire rng s (ClickEndpoint e) =
     (if App_view s \<noteq> ErrorView \<and> e \<in> set (map endpoint_id ENDPOINTS)
      then Some (handleEndpointChange e s) else None)"
| "fire rng s (TypeSearch term) =
     (if App_view s \<noteq> ErrorView \<and> activeEndpoint s = ''character''
      then Some (handleSearch term s) else None)"
| "fire rng s (ClickPageButton Previous) =
     (if pagination_rendered s \<and> currentPage s \<noteq> 1 then Some (press s Previous) else None)"
| "fire rng s (ClickPageButton Next) =
     (if pagination_rendered s \<and> currentPage s \<noteq> totalPages s then Some (press s Next) else None)"
| "fire rng s (ClickPage p) =
     (if pagination_rendered s \<and> Page p \<in> set rng
      then Some (s\<lparr>currentPage := p\<rparr>) else None)"
| "fire rng s (Setter eff) = Some (apply_effect s eff)"

definition ui_step :: "ui_state \<Rightarrow> ui_event \<Rightarrow> ui_state option" where
  "ui_step s ev =
     (case ev of
        Setter eff \<Rightarrow> Some (apply_effect s eff)
      | _ \<Rightarrow> (case paginationRange (currentPage s) (totalPages s) of
                None \<Rightarrow> None
              | Some rng \<Rightarrow> fire rng s ev))"

fun ui_run :: "ui_state \<Rightarrow> ui_event list \<Rightarrow> ui_state option" where
  "ui_run s [] = Some s"
| "ui_run s (ev # evs) = (case ui_step s ev of None \<Rightarrow> None | Some s' \<Rightarrow> ui_run s' evs)"

section \<open>Example data\<close>

text \<open>A page response of five pages, an empty one, and three answers of the network.\<close>

definition five_pages :: APIResponse where
  "five_pages =
     \<lparr>info = \<lparr>count = 90, pages = 5, next = None, prev = None\<rparr>,
      results = [\<lparr>item_id = 1, name = ''Rick Sanchez'', status = Some ''Alive''\<rparr>]\<rparr>"


definition net_ok :: "APIResponse \<Rightarrow> string \<Rightarrow> fetch_outcome" where
  "net_ok d u = Responded \<lparr>response_status = 200, json = Parsed d\<rparr>"

definition net_status :: "nat \<Rightarrow> string \<Rightarrow> fetch_outcome" where
  "net_status code u =
     Responded \<lparr>response_status = code, json = JsonThrows (ErrorObject ''Unexpected token'')\<rparr>"

definition net_down :: "string \<Rightarrow> fetch_outcome" where
  "net_down u = Rejected (ErrorObject ''Failed to fetch'')"

section \<open>Properties of the pagination range\<close>

lemma ulp_small: "n < 2 ^ 53 \<Longrightarrow> ulp n = 1"
  by (simp add: ulp.simps [of n])

lemma ulp_next:
  assumes "2 ^ 53 \<le> n" and "n < 2 ^ 54"
  shows "ulp n = 2"
proof -
  from assms have "n div 2 < 2 ^ 53"
    by simp
  with assms show ?thesis
    by (simp add: ulp.simps [of n] ulp_small)
qed

lemma round_nat_small: "n < 2 ^ 53 \<Longrightarrow> round_nat n = n"
  by (simp add: round_nat_def ulp_small)

lemma round_nat_53: "round_nat (2 ^ 53) = 2 ^ 53"
  by (simp add: round_nat_def ulp_next)

lemma round_nat_53_1: "round_nat (2 ^ 53 + 1) = 2 ^ 53"
  by (simp add: round_nat_def ulp_next)

lemma round_double_exact:
  assumes "- (2 ^ 53) \<le> x" and "x \<le> 2 ^ 53"
  shows "round_double x = x"
proof -
  have "round_nat (nat \<bar>x\<bar>) = nat \<bar>x\<bar>"
  proof (cases "nat \<bar>x\<bar> < 2 ^ 53")
    case True
    then show ?thesis by (rule round_nat_small)
  next
    case False
    with assms have "nat \<bar>x\<bar> = 2 ^ 53"
      by (simp add: nat_eq_iff)
    then show ?thesis using round_nat_53 by simp
  qed
  then show ?thesis
    by (cases "x < 0") (simp_all add: round_double_def)
qed

lemma js_add_exact:
  assumes "- (2 ^ 53) \<le> a + b" and "a + b \<le> 2 ^ 53"
  shows "js_add a b = a + b"
  unfolding js_add_def using assms by (rule round_double_exact)

lemma js_sub_exact:
  assumes "- (2 ^ 53) \<le> a - b" and "a - b \<le> 2 ^ 53"
  shows "js_sub a b = a - b"
  unfolding js_sub_def using assms by (rule round_double_exact)

lemma js_add_stalls: "js_add (2 ^ 53) 1 = 2 ^ 53"
proof -
  have "nat (2 ^ 53 + 1) = 2 ^ 53 + 1"
    by simp
  then show ?thesis
    using round_nat_53_1 by (simp add: js_add_def round_double_def)
qed

text \<open>A loop that returns has a counter that advances.\<close>

lemma push_loop_Some_advances:
  assumes "push_loop i hi rng = Some y"
  shows "\<not> (js_add i 1 = i \<and> i \<le> hi)"
proof (rule push_loop.raw_induct
    [where P = "\<lambda>i hi rng y. \<not> (js_add i 1 = i \<and> i \<le> hi)", OF _ assms])
  fix f i hi rng y
  assume IH: "\<And>i hi rng y. f i hi rng = Some y \<Longrightarrow> \<not> (js_add i 1 = i \<and> i \<le> hi)"
    and body: "(if i \<le> hi then f (js_add i 1) hi (push (Page i) rng) else Some rng) = Some y"
  show "\<not> (js_add i 1 = i \<and> i \<le> hi)"
  proof
    assume stalled: "js_add i 1 = i \<and> i \<le> hi"
    with body have "f i hi (push (Page i) rng) = Some y"
      by simp
    from IH [OF this] stalled show False
      by simp
  qed
qed

lemma push_loop_stalls:
  assumes "js_add i 1 = i" and "i \<le> hi"
  shows "push_loop i hi rng = None"
proof (cases "push_loop i hi rng")
  case None
  then show ?thesis .
next
  case (Some y)
  from push_loop_Some_advances [OF this] assms show ?thesis
    by simp
qed

text \<open>Below \<open>2 ^ 53\<close> the loop returns, having pushed the pages from \<open>i\<close> to \<open>hi\<close>.\<close>

lemma push_loop_upto:
  assumes "- (2 ^ 53) \<le> i" and "hi < 2 ^ 53"
  shows "push_loop i hi rng = Some (rng @ map Page [i..hi])"
  using assms
proof (induction "nat (hi + 1 - i)" arbitrary: i rng)
  case 0
  then have "hi < i" by simp
  then show ?case
    by (simp add: push_loop.simps [of i])
next
  case (Suc k)
  then have le: "i \<le> hi" by simp
  have next_i: "js_add i 1 = i + 1"
    using Suc.prems le by (intro js_add_exact) simp_all
  have "push_loop (i + 1) hi (push (Page i) rng)
      = Some (push (Page i) rng @ map Page [i + 1..hi])"
    using Suc.hyps(2) Suc.prems by (intro Suc.hyps(1)) simp_all
  with le next_i show ?case
    by (simp add: push_loop.simps [of i] push_def upto_rec1 [of i hi])
qed

lemma page_numbers_append: "page_numbers (xs @ ys) = page_numbers xs @ page_numbers ys"
  by (induction xs rule: page_numbers.induct) simp_all

lemma page_numbers_map_Page: "page_numbers (map Page ps) = ps"
  by (induction ps) simp_all

lemma adjacent_ellipsis_map_Page: "\<not> adjacent_ellipsis (map Page ps)"
  by (induction ps) simp_all

lemma adjacent_ellipsis_Page_append:
  "adjacent_ellipsis (map Page ps @ ms) = (adjacent_ellipsis ms)"
  by (induction ps) simp_all

lemma adjacent_ellipsis_Cons_Page:
  assumes "ps \<noteq> []"
  shows "adjacent_ellipsis (m # map Page ps @ ms) = adjacent_ellipsis ms"
proof (cases ps)
  case Nil
  with assms show ?thesis by simp
next
  case (Cons p qs)
  then show ?thesis
    by (cases m) (simp_all add: adjacent_ellipsis_Page_append)
qed

lemma last_upto: "i \<le> j \<Longrightarrow> last [i..j] = j"
  by (simp add: upto_rec2 [of i j])

lemma hd_upto: "i \<le> j \<Longrightarrow> hd [i..j] = i"
  by (simp add: upto_rec1 [of i j])

text \<open>The four branches, for a page count below \<open>2 ^ 53\<close>.\<close>

lemma range_all:
  assumes "tp \<le> 7"
  shows "paginationRange cp tp = Some (map Page [1..tp])"
proof -
  have "push_loop 1 tp [] = Some ([] @ map Page [1..tp])"
    using assms by (intro push_loop_upto) simp_all
  with assms show ?thesis
    by (simp add: paginationRange_def)
qed

lemma push_loop_1_5: "push_loop 1 5 [] = Some (map Page [1..5])"
proof -
  have "push_loop 1 5 [] = Some ([] @ map Page [1..5])"
    by (intro push_loop_upto) simp_all
  then show ?thesis by simp
qed

lemma range_start:
  assumes "7 < tp" and "cp \<le> 4"
  shows "paginationRange cp tp = Some (map Page [1..5] @ [Ellipsis, Page tp])"
  using assms by (simp add: paginationRange_def push_loop_1_5 push_def)

lemma range_end:
  assumes "7 < tp" and "tp < 2 ^ 53" and "4 < cp" and "tp - 3 \<le> cp"
  shows "paginationRange cp tp = Some ([Page 1, Ellipsis] @ map Page [tp - 4..tp])"
proof -
  have sub3: "js_sub tp 3 = tp - 3" and sub4: "js_sub tp 4 = tp - 4"
    using assms by (simp_all add: js_sub_exact)
  have "push_loop (tp - 4) tp [Page 1, Ellipsis]
      = Some ([Page 1, Ellipsis] @ map Page [tp - 4..tp])"
    using assms by (intro push_loop_upto) simp_all
  with assms show ?thesis
    by (simp add: paginationRange_def sub3 sub4 push_def)
qed

lemma range_middle:
  assumes "7 < tp" and "tp < 2 ^ 53" and "4 < cp" and "cp < tp - 3"
  shows "paginationRange cp tp =
    Some ([Page 1, Ellipsis] @ map Page [cp - 1..cp + 1] @ [Ellipsis, Page tp])"
proof -
  have sub3: "js_sub tp 3 = tp - 3" and sub1: "js_sub cp 1 = cp - 1"
    and add1: "js_add cp 1 = cp + 1"
    using assms by (simp_all add: js_sub_exact js_add_exact)
  have "push_loop (cp - 1) (cp + 1) [Page 1, Ellipsis]
      = Some ([Page 1, Ellipsis] @ map Page [cp - 1..cp + 1])"
    using assms by (intro push_loop_upto) simp_all
  with assms show ?thesis
    by (simp add: paginationRange_def sub3 sub1 add1 push_def)
qed

text \<open>
  C2: with at most seven pages and the current page among them, the range is exactly the
  list of all page numbers \<open>1, 2, ..., totalPages\<close>, and holds no ellipsis marker.
\<close>

theorem paginationRange_small:
  assumes "1 \<le> tp" and "tp \<le> 7" and "1 \<le> cp" and "cp \<le> tp"
  shows "paginationRange cp tp = Some (map Page [1..tp])
    \<and> Ellipsis \<notin> set (map Page [1..tp])"
  using assms by (auto simp: range_all)

theorem paginationRange_small_witness:
  "(1::int) \<le> 3 \<and> (3::int) \<le> 7 \<and> (1::int) \<le> 2 \<and> (2::int) \<le> 3
   \<and> paginationRange 2 3 = Some [Page 1, Page 2, Page 3]
   \<and> Ellipsis \<notin> set [Page 1, Page 2, Page 3]"
  using paginationRange_small [of 3 2] by (simp add: upto_rec1)

text \<open>
  C3: the three vectors for ten pages: current page 1, current page 10, current page 5.
\<close>

theorem paginationRange_vectors:
  "paginationRange 1 10
     = Some [Page 1, Page 2, Page 3, Page 4, Page 5, Ellipsis, Page 10]
   \<and> paginationRange 10 10
     = Some [Page 1, Ellipsis, Page 6, Page 7, Page 8, Page 9, Page 10]
   \<and> paginationRange 5 10
     = Some [Page 1, Ellipsis, Page 4, Page 5, Page 6, Ellipsis, Page 10]"
  by (simp add: range_start range_end range_middle upto_rec1)

lemma invariant_all:
  assumes "1 \<le> tp" and "1 \<le> cp" and "cp \<le> tp"
  shows "sorted_wrt (<) (page_numbers (map Page [1..tp]))"
    and "hd (map Page [1..tp]) = Page 1"
    and "last (map Page [1..tp]) = Page tp"
    and "Page cp \<in> set (map Page [1..tp])"
    and "\<not> adjacent_ellipsis (map Page [1..tp])"
    and "map Page [1..tp] \<noteq> []"
  using assms
  by (simp_all add: page_numbers_map_Page adjacent_ellipsis_map_Page
      hd_map last_map hd_upto last_upto)

lemma invariant_start:
  assumes "7 < tp" and "cp \<le> 4" and "1 \<le> cp"
  shows "sorted_wrt (<) (page_numbers (map Page [1..5] @ [Ellipsis, Page tp]))"
    and "hd (map Page [1..5] @ [Ellipsis, Page tp]) = Page 1"
    and "last (map Page [1..5] @ [Ellipsis, Page tp]) = Page tp"
    and "Page cp \<in> set (map Page [1..5] @ [Ellipsis, Page tp])"
    and "\<not> adjacent_ellipsis (map Page [1..5] @ [Ellipsis, Page tp])"
  using assms
  by (auto simp: upto_rec1)

lemma invariant_end:
  assumes "7 < tp" and "4 < cp" and "tp - 3 \<le> cp" and "cp \<le> tp"
  shows "sorted_wrt (<) (page_numbers ([Page 1, Ellipsis] @ map Page [tp - 4..tp]))"
    and "hd ([Page 1, Ellipsis] @ map Page [tp - 4..tp]) = Page 1"
    and "last ([Page 1, Ellipsis] @ map Page [tp - 4..tp]) = Page tp"
    and "Page cp \<in> set ([Page 1, Ellipsis] @ map Page [tp - 4..tp])"
    and "\<not> adjacent_ellipsis ([Page 1, Ellipsis] @ map Page [tp - 4..tp])"
  using assms
  by (auto simp: page_numbers_map_Page last_map last_upto
      adjacent_ellipsis_Cons_Page [where ms = "[]", simplified])

lemma invariant_middle:
  assumes "7 < tp" and "4 < cp" and "cp < tp - 3"
  shows "sorted_wrt (<)
      (page_numbers ([Page 1, Ellipsis] @ map Page [cp - 1..cp + 1] @ [Ellipsis, Page tp]))"
    and "hd ([Page 1, Ellipsis] @ map Page [cp - 1..cp + 1] @ [Ellipsis, Page tp]) = Page 1"
    and "last ([Page 1, Ellipsis] @ map Page [cp - 1..cp + 1] @ [Ellipsis, Page tp]) = Page tp"
    and "Page cp \<in> set ([Page 1, Ellipsis] @ map Page [cp - 1..cp + 1] @ [Ellipsis, Page tp])"
    and "\<not> adjacent_ellipsis
      ([Page 1, Ellipsis] @ map Page [cp - 1..cp + 1] @ [Ellipsis, Page tp])"
  using assms
  by (auto simp: page_numbers_append page_numbers_map_Page
      adjacent_ellipsis_Cons_Page sorted_wrt_append)

text \<open>
  C9, as stated, fails: with \<open>2 ^ 53\<close> pages and the current page the last one, the
  loop of line 133 reaches \<open>i = 2 ^ 53\<close>, where \<^verbatim>\<open>i++\<close> leaves \<open>i\<close> as it is, and
  never ends: no range is returned.
\<close>

theorem paginationRange_invariant_counterexample:
  "(1::int) \<le> 2 ^ 53
   \<and> js_add (2 ^ 53) 1 = 2 ^ 53
   \<and> paginationRange (2 ^ 53) (2 ^ 53) = None"
proof -
  have sub3: "js_sub (2 ^ 53) 3 = 2 ^ 53 - 3" and sub4: "js_sub (2 ^ 53) 4 = 2 ^ 53 - 4"
    by (simp_all add: js_sub_exact)
  have step: "push_loop i hi rng = push_loop (i + 1) hi (push (Page i) rng)"
    if "0 \<le> i" and "i < 2 ^ 53" and "i \<le> hi" for i hi rng
    using that by (simp add: push_loop.simps [of i] js_add_exact)
  have stalled: "push_loop (2 ^ 53) (2 ^ 53) rng = None" for rng
    by (rule push_loop_stalls [OF js_add_stalls]) simp
  have "push_loop (2 ^ 53 - 4) (2 ^ 53) rng = None" for rng
    using stalled by (simp add: step)
  then have "paginationRange (2 ^ 53) (2 ^ 53) = None"
    using sub3 sub4 by (simp add: paginationRange_def)
  then show ?thesis
    using js_add_stalls by simp
qed

text \<open>
  C9, amended: for at least one page and fewer than \<open>2 ^ 53\<close>, and a current page among
  them, the range is returned, its page numbers are strictly increasing, it starts with
  page 1 and ends with the last page, the current page is in it, and no two ellipsis markers
  are neighbours.
\<close>

theorem paginationRange_invariant:
  assumes "1 \<le> tp" and "tp < 2 ^ 53" and "1 \<le> cp" and "cp \<le> tp"
  shows "\<exists>r. paginationRange cp tp = Some r
    \<and> sorted_wrt (<) (page_numbers r)
    \<and> r \<noteq> []
    \<and> hd r = Page 1
    \<and> last r = Page tp
    \<and> Page cp \<in> set r
    \<and> \<not> adjacent_ellipsis r"
proof -
  consider "tp \<le> 7" | "7 < tp" "cp \<le> 4" | "7 < tp" "4 < cp" "tp - 3 \<le> cp"
    | "7 < tp" "4 < cp" "cp < tp - 3"
    by linarith
  then show ?thesis
  proof cases
    case 1
    with assms show ?thesis
      using invariant_all [of tp cp] by (simp add: range_all)
  next
    case 2
    with assms show ?thesis
      using invariant_start [of tp cp] by (simp add: range_start)
  next
    case 3
    with assms show ?thesis
      using invariant_end [of tp cp] by (simp add: range_end)
  next
    case 4
    with assms show ?thesis
      using invariant_middle [of tp cp] by (simp add: range_middle)
  qed
qed

theorem paginationRange_invariant_witness:
  "(1::int) \<le> 12 \<and> (12::int) < 2 ^ 53 \<and> (1::int) \<le> 6 \<and> (6::int) \<le> 12
   \<and> paginationRange 6 12
       = Some [Page 1, Ellipsis, Page 5, Page 6, Page 7, Ellipsis, Page 12]
   \<and> sorted_wrt (<) (page_numbers [Page 1, Ellipsis, Page 5, Page 6, Page 7, Ellipsis, Page 12])
   \<and> hd [Page 1, Ellipsis, Page 5, Page 6, Page 7, Ellipsis, Page 12] = Page 1
   \<and> last [Page 1, Ellipsis, Page 5, Page 6, Page 7, Ellipsis, Page 12] = Page 12
   \<and> Page 6 \<in> set [Page 1, Ellipsis, Page 5, Page 6, Page 7, Ellipsis, Page 12]
   \<and> \<not> adjacent_ellipsis [Page 1, Ellipsis, Page 5, Page 6, Page 7, Ellipsis, Page 12]"
  using paginationRange_invariant [of 12 6]
  by (simp add: range_middle upto_rec1)

section \<open>Properties of the event handlers\<close>

text \<open>
  C5: from every state and for every resource id, \<^verbatim>\<open>handleEndpointChange\<close> makes that id
  the active resource, sets the page to 1 and the search term to the empty string; the
  other three cells are unchanged.
\<close>

theorem handleEndpointChange_resets:
  "activeEndpoint (handleEndpointChange endpointId s) = endpointId
   \<and> currentPage (handleEndpointChange endpointId s) = 1
   \<and> searchTerm (handleEndpointChange endpointId s) = []
   \<and> data (handleEndpointChange endpointId s) = data s
   \<and> isLoading (handleEndpointChange endpointId s) = isLoading s
   \<and> error (handleEndpointChange endpointId s) = error s"
  by (simp add: handleEndpointChange_def)

text \<open>
  C6: from every state and for every term, \<^verbatim>\<open>handleSearch\<close> stores the term and sets the
  page to 1; the active resource and the other cells are unchanged.
\<close>

theorem handleSearch_resets_page:
  "searchTerm (handleSearch term s) = term
   \<and> currentPage (handleSearch term s) = 1
   \<and> activeEndpoint (handleSearch term s) = activeEndpoint s
   \<and> data (handleSearch term s) = data s
   \<and> isLoading (handleSearch term s) = isLoading s
   \<and> error (handleSearch term s) = error s"
  by (simp add: handleSearch_def)

lemma totalPages_press: "totalPages (press s b) = totalPages s"
  by (cases b) (simp_all add: totalPages_def)

lemma press_in_range:
  assumes "1 \<le> currentPage s" and "currentPage s \<le> totalPages s"
  shows "1 \<le> currentPage (press s b) \<and> currentPage (press s b) \<le> totalPages s"
  using assms by (cases b) auto

lemma presses_in_range:
  assumes "1 \<le> currentPage s" and "currentPage s \<le> totalPages s"
  shows "1 \<le> currentPage (foldl press s bs)
    \<and> currentPage (foldl press s bs) \<le> totalPages s
    \<and> totalPages (foldl press s bs) = totalPages s"
  using assms
proof (induction bs arbitrary: s)
  case Nil
  then show ?case by simp
next
  case (Cons b bs)
  have "1 \<le> currentPage (press s b)" and "currentPage (press s b) \<le> totalPages (press s b)"
    using press_in_range [OF Cons.prems, of b] by (simp_all add: totalPages_press)
  from Cons.IH [OF this] show ?case
    by (simp add: totalPages_press)
qed

text \<open>
  C10: Previous sets the page to \<open>max (currentPage - 1) 1\<close> and Next to
  \<open>min (currentPage + 1) totalPages\<close>; from a page between 1 and the page count, every
  sequence of presses leaves the page between 1 and the page count, which the presses do
  not change.
\<close>

theorem page_buttons_clamp:
  assumes "1 \<le> currentPage s" and "currentPage s \<le> totalPages s"
  shows "currentPage (press s Previous) = max (currentPage s - 1) 1
    \<and> currentPage (press s Next) = min (currentPage s + 1) (totalPages s)
    \<and> 1 \<le> currentPage (foldl press s bs)
    \<and> currentPage (foldl press s bs) \<le> totalPages s
    \<and> totalPages (foldl press s bs) = totalPages s"
  using presses_in_range [OF assms, of bs] by simp

theorem page_buttons_clamp_witness:
  "1 \<le> currentPage (initial_state\<lparr>data := Some five_pages, currentPage := 4\<rparr>)
   \<and> currentPage (initial_state\<lparr>data := Some five_pages, currentPage := 4\<rparr>)
       \<le> totalPages (initial_state\<lparr>data := Some five_pages, currentPage := 4\<rparr>)
   \<and> totalPages (initial_state\<lparr>data := Some five_pages, currentPage := 4\<rparr>) = 5
   \<and> currentPage (foldl press (initial_state\<lparr>data := Some five_pages, currentPage := 4\<rparr>)
        [Next, Next, Next]) = 5
   \<and> currentPage (foldl press (initial_state\<lparr>data := Some five_pages, currentPage := 4\<rparr>)
        [Previous, Previous, Previous, Previous, Previous]) = 1"
  using page_buttons_clamp [of "initial_state\<lparr>data := Some five_pages, currentPage := 4\<rparr>"
      "[Next, Next, Next]"]
  by (simp add: initial_state_def five_pages_def totalPages_def)

section \<open>Properties of the fetch coordinator\<close>

lemma run_append: "run (xs @ ys) s = run ys (run xs s)"
  by (simp add: run_def)

lemma run_Cons: "run (x # xs) s = run xs (apply_effect s x)"
  by (simp add: run_def)

lemma run_Nil: "run [] s = s"
  by (simp add: run_def)

lemma fetchData_success:
  assumes "net (request_url endpoint page search) = Responded r" and "ok r"
    and "json r = Parsed d"
  shows "fetchData net endpoint page search =
    [SetIsLoading True, SetError None, Request (request_url endpoint page search),
     SetData (Some d), SetIsLoading False]"
  using assms by (simp add: fetchData_def try_block_def)

lemma fetchData_prefix:
  "\<exists>rest. fetchData net endpoint page search =
     [SetIsLoading True, SetError None, Request (request_url endpoint page search)] @ rest
     @ [SetIsLoading False]"
  by (auto simp: fetchData_def try_block_def Let_def
      split: fetch_outcome.splits json_outcome.splits thrown.splits)

lemma run_catch_block:
  "data (run (catch_block err) s) = None
   \<and> error (run (catch_block err) s) =
       Some (case err of ErrorObject message \<Rightarrow> message | OtherValue \<Rightarrow> ''An error occurred'')
   \<and> isLoading (run (catch_block err) s) = isLoading s"
  by (simp add: catch_block_def run_def)

text \<open>
  C1: for every resource id, page and search term, \<^verbatim>\<open>fetchData\<close> sets the loading
  flag before the request is issued and clears it whatever the outcome. On success the
  dataset becomes the response and the error stays cleared. On a status outside 200 to 299
  the dataset becomes none and the message is \<^verbatim>\<open>Failed to fetch: \<close> followed by the
  status code; when the request is rejected with an \<^verbatim>\<open>Error\<close> the dataset becomes none
  and the message is that of the error. A thrown value that is not an \<^verbatim>\<open>Error\<close> gives the
  fixed text, and a body that does not parse is handled as a rejection is.
\<close>

theorem fetchData_contract:
  "isLoading (run (takeWhile (\<lambda>e. \<not> is_request e) (fetchData net endpoint page search)) s)
   \<and> Request (request_url endpoint page search) \<in> set (fetchData net endpoint page search)
   \<and> \<not> isLoading (run (fetchData net endpoint page search) s)
   \<and> (\<forall>r d. net (request_url endpoint page search) = Responded r \<and> ok r \<and> json r = Parsed d
        \<longrightarrow> data (run (fetchData net endpoint page search) s) = Some d
          \<and> error (run (fetchData net endpoint page search) s) = None)
   \<and> (\<forall>r. net (request_url endpoint page search) = Responded r \<and> \<not> ok r
        \<longrightarrow> data (run (fetchData net endpoint page search) s) = None
          \<and> error (run (fetchData net endpoint page search) s)
              = Some (''Failed to fetch: '' @ number_toString (int (response_status r))))
   \<and> (\<forall>message. net (request_url endpoint page search) = Rejected (ErrorObject message)
        \<longrightarrow> data (run (fetchData net endpoint page search) s) = None
          \<and> error (run (fetchData net endpoint page search) s) = Some message)
   \<and> (net (request_url endpoint page search) = Rejected OtherValue
        \<longrightarrow> data (run (fetchData net endpoint page search) s) = None
          \<and> error (run (fetchData net endpoint page search) s) = Some ''An error occurred'')
   \<and> (\<forall>r t. net (request_url endpoint page search) = Responded r \<and> ok r \<and> json r = JsonThrows t
        \<longrightarrow> data (run (fetchData net endpoint page search) s) = None
          \<and> error (run (fetchData net endpoint page search) s)
              = Some (case t of ErrorObject message \<Rightarrow> message
                              | OtherValue \<Rightarrow> ''An error occurred''))"
proof -
  let ?u = "request_url endpoint page search"
  let ?fx = "fetchData net endpoint page search"
  obtain rest where fx: "?fx = [SetIsLoading True, SetError None, Request ?u] @ rest
      @ [SetIsLoading False]"
    using fetchData_prefix by blast
  have before: "isLoading (run (takeWhile (\<lambda>e. \<not> is_request e) ?fx) s)"
    by (simp add: fx is_request_def run_def)
  have issued: "Request ?u \<in> set ?fx"
    by (simp add: fx)
  have cleared: "\<not> isLoading (run ?fx s)"
    by (simp add: fx run_append run_Cons run_Nil)
  have success: "data (run ?fx s) = Some d \<and> error (run ?fx s) = None"
    if "net ?u = Responded r" "ok r" "json r = Parsed d" for r d
    using fetchData_success [of net endpoint page search r d] that by (simp add: run_def)
  have failure: "data (run ?fx s) = None
      \<and> error (run ?fx s) = Some (case err of ErrorObject message \<Rightarrow> message
                                      | OtherValue \<Rightarrow> ''An error occurred'')"
    if "?fx = [SetIsLoading True, SetError None, Request ?u] @ catch_block err
      @ [SetIsLoading False]" for err
    using run_catch_block [of err "run [SetIsLoading True, SetError None, Request ?u] s"]
    by (simp add: that run_append run_Cons run_Nil)
  have status: "data (run ?fx s) = None
      \<and> error (run ?fx s) = Some (''Failed to fetch: '' @ number_toString (int (response_status r)))"
    if "net ?u = Responded r" "\<not> ok r" for r
  proof -
    have "?fx = [SetIsLoading True, SetError None, Request ?u]
        @ catch_block (ErrorObject (''Failed to fetch: '' @ number_toString (int (response_status r))))
        @ [SetIsLoading False]"
      using that by (simp add: fetchData_def try_block_def)
    from failure [OF this] show ?thesis by simp
  qed
  have rejected: "data (run ?fx s) = None
      \<and> error (run ?fx s) = Some (case t of ErrorObject message \<Rightarrow> message
                                    | OtherValue \<Rightarrow> ''An error occurred'')"
    if "net ?u = Rejected t" for t
  proof -
    have "?fx = [SetIsLoading True, SetError None, Request ?u] @ catch_block t
        @ [SetIsLoading False]"
      using that by (simp add: fetchData_def try_block_def)
    from failure [OF this] show ?thesis .
  qed
  have body: "data (run ?fx s) = None
      \<and> error (run ?fx s) = Some (case t of ErrorObject message \<Rightarrow> message
                                    | OtherValue \<Rightarrow> ''An error occurred'')"
    if "net ?u = Responded r" "ok r" "json r = JsonThrows t" for r t
  proof -
    have "?fx = [SetIsLoading True, SetError None, Request ?u] @ catch_block t
        @ [SetIsLoading False]"
      using that by (simp add: fetchData_def try_block_def)
    from failure [OF this] show ?thesis .
  qed
  from before issued cleared success status rejected [of "ErrorObject _"] rejected [of OtherValue]
    body
  show ?thesis by simp
qed

theorem fetchData_contract_witness:
  "ok \<lparr>response_status = 200, json = Parsed five_pages\<rparr>
   \<and> isLoading (run (takeWhile (\<lambda>e. \<not> is_request e)
        (fetchData (net_ok five_pages) ''character'' 1 [])) initial_state)
   \<and> \<not> isLoading (run (fetchData (net_ok five_pages) ''character'' 1 []) initial_state)
   \<and> data (run (fetchData (net_ok five_pages) ''character'' 1 []) initial_state)
       = Some five_pages
   \<and> error (run (fetchData (net_ok five_pages) ''character'' 1 []) initial_state) = None
   \<and> \<not> ok \<lparr>response_status = 404, json = JsonThrows (ErrorObject ''Unexpected token'')\<rparr>
   \<and> data (run (fetchData (net_status 404) ''character'' 99 [])
        (initial_state\<lparr>data := Some five_pages\<rparr>)) = None
   \<and> error (run (fetchData (net_status 404) ''character'' 99 [])
        (initial_state\<lparr>data := Some five_pages\<rparr>)) = Some ''Failed to fetch: 404''
   \<and> data (run (fetchData net_down ''episode'' 2 [])
        (initial_state\<lparr>data := Some five_pages\<rparr>)) = None
   \<and> error (run (fetchData net_down ''episode'' 2 [])
        (initial_state\<lparr>data := Some five_pages\<rparr>)) = Some ''Failed to fetch''"
  using fetchData_contract [of "net_ok five_pages" "''character''" 1 "[]" initial_state]
    fetchData_contract [of "net_status 404" "''character''" 99 "[]"
      "initial_state\<lparr>data := Some five_pages\<rparr>"]
    fetchData_contract [of net_down "''episode''" 2 "[]"
      "initial_state\<lparr>data := Some five_pages\<rparr>"]
  by (simp add: net_ok_def net_status_def net_down_def ok_def number_toString_def
      nat_toString.simps digit_char_def)



section \<open>The request URL and the search term\<close>

lemma startsWith_append: "startsWith (p @ b) p"
  by (induction p) simp_all

lemma str_includes_prefix: "str_includes (p @ b) p"
proof (cases "p @ b")
  case Nil
  then show ?thesis by simp
next
  case (Cons c cs)
  have "startsWith (p @ b) p" by (rule startsWith_append)
  with Cons show ?thesis by simp
qed

lemma str_includes_append: "str_includes (a @ p @ b) p"
proof (induction a)
  case Nil
  show ?case by (simp add: str_includes_prefix)
next
  case (Cons c a)
  then show ?case by simp
qed

lemma str_includes_first:
  assumes "c \<notin> set s"
  shows "\<not> str_includes s (c # ps)"
  using assms by (induction s) auto

lemma digit_char_set:
  assumes "d < 10"
  shows "digit_char d \<in> set ''0123456789''"
proof -
  have "d < length ''0123456789''"
    using assms by simp
  then show ?thesis
    unfolding digit_char_def by (rule nth_mem)
qed

lemma nat_toString_set: "set (nat_toString n) \<subseteq> set ''0123456789''"
proof (induction n rule: nat_toString.induct)
  case (1 n)
  show ?case
  proof (cases "n < 10")
    case True
    then show ?thesis
      using digit_char_set [of n] by (simp add: nat_toString.simps [of n])
  next
    case False
    have "digit_char (n mod 10) \<in> set ''0123456789''"
      by (rule digit_char_set) simp
    with False "1.IH" show ?thesis
      by (simp add: nat_toString.simps [of n])
  qed
qed

lemma nat_toString_no_n: "CHR ''n'' \<notin> set (nat_toString k)"
proof
  assume "CHR ''n'' \<in> set (nat_toString k)"
  with nat_toString_set [of k] have "CHR ''n'' \<in> set ''0123456789''"
    by (rule subsetD)
  then show False by simp
qed

lemma number_toString_no_n: "\<not> str_includes (number_toString i) ''name=''"
proof (rule str_includes_first)
  show "CHR ''n'' \<notin> set (number_toString i)"
    by (simp add: number_toString_def nat_toString_no_n)
qed

lemma request_url_no_search:
  "request_url endpoint page [] = BASE_URL @ ''/'' @ endpoint @ ''?page='' @ number_toString page"
  by (simp add: request_url_def searchParam_def)

lemma request_url_search:
  assumes "search \<noteq> []"
  shows "str_includes (request_url endpoint page search) ''&name=''"
proof -
  have "request_url endpoint page search =
      (BASE_URL @ ''/'' @ endpoint @ ''?page='' @ number_toString page) @ ''&name=''
      @ encodeURIComponent search"
    using assms by (simp add: request_url_def searchParam_def)
  then show ?thesis
    by (simp only: str_includes_append)
qed

lemma location_url_no_name:
  "\<not> str_includes (request_url ''location'' page []) ''name=''"
  using number_toString_no_n [of page]
  by (simp add: request_url_no_search BASE_URL_def)

lemma episode_url_no_name:
  "\<not> str_includes (request_url ''episode'' page []) ''name=''"
  using number_toString_no_n [of page]
  by (simp add: request_url_no_search BASE_URL_def)

lemma request_url_with_search:
  assumes "search \<noteq> []"
  shows "request_url endpoint page search =
    BASE_URL @ ''/'' @ endpoint @ ''?page='' @ number_toString page @ ''&name=''
    @ encodeURIComponent search"
  using assms by (simp add: request_url_def searchParam_def)

text \<open>What \<^verbatim>\<open>encodeURIComponent\<close> returns holds unreserved characters and \<open>%\<close> only.\<close>

lemma hex_digit_unreserved:
  assumes "d < 16"
  shows "uri_unreserved (hex_digit d)"
proof -
  have "d < length ''0123456789ABCDEF''"
    using assms by simp
  then have "hex_digit d \<in> set ''0123456789ABCDEF''"
    unfolding hex_digit_def by (rule nth_mem)
  moreover have "list_all uri_unreserved ''0123456789ABCDEF''"
    by (simp add: uri_unreserved_def)
  ultimately show ?thesis
    by (simp only: list_all_iff)
qed

lemma percent_byte_safe:
  assumes "b < 256"
  shows "list_all (\<lambda>c. uri_unreserved c \<or> c = CHR ''%'') (percent_byte b)"
proof -
  from assms have "b div 16 < 16" and "b mod 16 < 16"
    by simp_all
  then show ?thesis
    by (simp add: percent_byte_def hex_digit_unreserved)
qed

lemma encode_unit_safe: "list_all (\<lambda>c. uri_unreserved c \<or> c = CHR ''%'') (encode_unit c)"
proof -
  have small: "(of_char c :: nat) < 256"
    by simp
  then have "(of_char c :: nat) div 64 < 4"
    by (intro less_mult_imp_div_less) simp
  then have "192 + (of_char c :: nat) div 64 < 256" and "128 + (of_char c :: nat) mod 64 < 256"
    by simp_all
  with small show ?thesis
    by (simp add: encode_unit_def Let_def percent_byte_safe)
qed

lemma encodeURIComponent_safe:
  "list_all (\<lambda>c. uri_unreserved c \<or> c = CHR ''%'') (encodeURIComponent s)"
  by (induction s) (simp_all add: encodeURIComponent_def encode_unit_safe)

lemma encodeURIComponent_example: "encodeURIComponent ''rick & morty'' = ''rick%20%26%20morty''"
  by (simp add: encodeURIComponent_def encode_unit_def uri_unreserved_def percent_byte_def
      hex_digit_def)

lemma fire_invariant:
  assumes "fire rng s ev = Some s'"
    and "activeEndpoint s \<in> set (map endpoint_id ENDPOINTS)"
    and "activeEndpoint s \<noteq> ''character'' \<longrightarrow> searchTerm s = []"
  shows "activeEndpoint s' \<in> set (map endpoint_id ENDPOINTS)
    \<and> (activeEndpoint s' \<noteq> ''character'' \<longrightarrow> searchTerm s' = [])"
proof (cases ev)
  case (ClickEndpoint e)
  with assms show ?thesis
    by (auto simp: handleEndpointChange_def split: if_splits)
next
  case (TypeSearch q)
  with assms show ?thesis
    by (auto simp: handleSearch_def split: if_splits)
next
  case (ClickPageButton b)
  with assms show ?thesis
    by (cases b) (auto split: if_splits)
next
  case (ClickPage p)
  with assms show ?thesis
    by (auto split: if_splits)
next
  case (Setter eff)
  with assms show ?thesis
    by (cases eff) auto
qed

lemma ui_step_fire:
  assumes "ui_step s ev = Some s'"
  shows "\<exists>rng. fire rng s ev = Some s'"
proof (cases "paginationRange (currentPage s) (totalPages s)")
  case None
  with assms obtain eff where "ev = Setter eff"
    by (cases ev) (simp_all add: ui_step_def)
  with assms have "fire [] s ev = Some s'"
    by (simp add: ui_step_def)
  then show ?thesis ..
next
  case (Some rng)
  then have "ui_step s ev = fire rng s ev"
    by (cases ev) (simp_all add: ui_step_def)
  with assms have "fire rng s ev = Some s'"
    by simp
  then show ?thesis ..
qed

lemma ui_step_invariant:
  assumes "ui_step s ev = Some s'"
    and "activeEndpoint s \<in> set (map endpoint_id ENDPOINTS)"
    and "activeEndpoint s \<noteq> ''character'' \<longrightarrow> searchTerm s = []"
  shows "activeEndpoint s' \<in> set (map endpoint_id ENDPOINTS)
    \<and> (activeEndpoint s' \<noteq> ''character'' \<longrightarrow> searchTerm s' = [])"
proof -
  from ui_step_fire [OF assms(1)] obtain rng where "fire rng s ev = Some s'"
    by blast
  from fire_invariant [OF this assms(2) assms(3)] show ?thesis .
qed

lemma ui_run_invariant:
  assumes "ui_run s evs = Some s'"
    and "activeEndpoint s \<in> set (map endpoint_id ENDPOINTS)"
    and "activeEndpoint s \<noteq> ''character'' \<longrightarrow> searchTerm s = []"
  shows "activeEndpoint s' \<in> set (map endpoint_id ENDPOINTS)
    \<and> (activeEndpoint s' \<noteq> ''character'' \<longrightarrow> searchTerm s' = [])"
  using assms
proof (induction evs arbitrary: s)
  case Nil
  then show ?case by simp
next
  case (Cons ev evs)
  from Cons.prems(1) obtain s1 where step: "ui_step s ev = Some s1"
    and rest: "ui_run s1 evs = Some s'"
    by (auto split: option.splits)
  from ui_step_invariant [OF step Cons.prems(2) Cons.prems(3)]
  have "activeEndpoint s1 \<in> set (map endpoint_id ENDPOINTS)"
    and "activeEndpoint s1 \<noteq> ''character'' \<longrightarrow> searchTerm s1 = []"
    by simp_all
  from Cons.IH [OF rest this] show ?case .
qed

lemma paginationRange_1_1: "paginationRange 1 1 = Some [Page 1]"
  by (simp add: range_all)

text \<open>
  C4, as stated, fails: \<^verbatim>\<open>fetchData\<close> does not look at the resource id when it builds
  the search parameter. For the resource \<^verbatim>\<open>location\<close> and the term \<^verbatim>\<open>rick\<close> the
  requested URL carries \<^verbatim>\<open>&name=rick\<close>.
\<close>

theorem search_only_for_character_counterexample:
  "''location'' \<noteq> ''character'' \<and> ''rick'' \<noteq> []
   \<and> request_url ''location'' 1 ''rick''
       = ''https://rickandmortyapi.com/api/location?page=1&name=rick''
   \<and> str_includes (request_url ''location'' 1 ''rick'') ''name=''
   \<and> fetchData net_down ''location'' 1 ''rick''
       = [SetIsLoading True, SetError None,
          Request ''https://rickandmortyapi.com/api/location?page=1&name=rick'',
          SetError (Some ''Failed to fetch''), SetData None, SetIsLoading False]"
  by (simp add: request_url_def searchParam_def BASE_URL_def number_toString_def
      nat_toString.simps digit_char_def encodeURIComponent_def encode_unit_def
      uri_unreserved_def fetchData_def try_block_def net_down_def catch_block_def)

text \<open>
  C4, amended: the URL carries a name parameter exactly when the search term passed is not
  empty, whatever the resource id. With an empty term it is the base, the resource and the
  page only. With a non-empty term it is that followed by \<^verbatim>\<open>&name=\<close> and the term as
  \<^verbatim>\<open>encodeURIComponent\<close> returns it, which holds unreserved characters and percent
  escapes only. The restriction to the character resource is kept by the controls: in every
  state the component reaches from its initial state, the search term is empty unless the
  active resource is \<^verbatim>\<open>character\<close>, so the URL requested for another active resource
  contains no name parameter.
\<close>

theorem search_gated_by_controls:
  "request_url endpoint page [] = BASE_URL @ ''/'' @ endpoint @ ''?page='' @ number_toString page
   \<and> (search \<noteq> []
        \<longrightarrow> request_url endpoint page search
            = BASE_URL @ ''/'' @ endpoint @ ''?page='' @ number_toString page @ ''&name=''
              @ encodeURIComponent search
          \<and> str_includes (request_url endpoint page search) ''&name='')
   \<and> list_all (\<lambda>c. uri_unreserved c \<or> c = CHR ''%'') (encodeURIComponent search)
   \<and> (ui_run initial_state evs = Some s \<and> activeEndpoint s \<noteq> ''character''
        \<longrightarrow> searchTerm s = []
          \<and> \<not> str_includes (request_url (activeEndpoint s) (currentPage s) (searchTerm s))
                ''name='')"
proof -
  have "searchTerm s = []
      \<and> \<not> str_includes (request_url (activeEndpoint s) (currentPage s) (searchTerm s)) ''name=''"
    if run: "ui_run initial_state evs = Some s" and other: "activeEndpoint s \<noteq> ''character''"
  proof -
    have "activeEndpoint s \<in> set (map endpoint_id ENDPOINTS)
        \<and> (activeEndpoint s \<noteq> ''character'' \<longrightarrow> searchTerm s = [])"
      by (rule ui_run_invariant [OF run]) (simp_all add: initial_state_def ENDPOINTS_def)
    with other have empty: "searchTerm s = []"
      and "activeEndpoint s = ''location'' \<or> activeEndpoint s = ''episode''"
      by (auto simp: ENDPOINTS_def)
    then show ?thesis
      using location_url_no_name [of "currentPage s"] episode_url_no_name [of "currentPage s"]
      by auto
  qed
  then show ?thesis
    using request_url_no_search [of endpoint page] request_url_search [of search endpoint page]
      request_url_with_search [of search endpoint page] encodeURIComponent_safe [of search]
    by blast
qed

theorem search_gated_by_controls_witness:
  "''rick & morty'' \<noteq> []
   \<and> request_url ''character'' 1 ''rick & morty''
       = ''https://rickandmortyapi.com/api/character?page=1&name=rick%20%26%20morty''
   \<and> str_includes (request_url ''character'' 1 ''rick & morty'') ''&name=''
   \<and> encodeURIComponent ''rick & morty'' = ''rick%20%26%20morty''
   \<and> ui_run initial_state [TypeSearch ''rick'', ClickEndpoint ''location'']
       = Some (initial_state\<lparr>activeEndpoint := ''location''\<rparr>)
   \<and> activeEndpoint (initial_state\<lparr>activeEndpoint := ''location''\<rparr>) \<noteq> ''character''
   \<and> searchTerm (initial_state\<lparr>activeEndpoint := ''location''\<rparr>) = []
   \<and> request_url ''location'' 1 [] = ''https://rickandmortyapi.com/api/location?page=1''
   \<and> \<not> str_includes (request_url ''location'' 1 []) ''name=''"
  using search_gated_by_controls [of "''character''" 1 "''rick & morty''"
      "[TypeSearch ''rick'', ClickEndpoint ''location'']"
      "initial_state\<lparr>activeEndpoint := ''location''\<rparr>"]
    search_gated_by_controls [of "''location''" 1 "[]"
      "[TypeSearch ''rick'', ClickEndpoint ''location'']"
      "initial_state\<lparr>activeEndpoint := ''location''\<rparr>"]
  by (simp add: initial_state_def App_view_def ENDPOINTS_def handleSearch_def
      handleEndpointChange_def BASE_URL_def number_toString_def nat_toString.simps
      digit_char_def ui_step_def totalPages_def paginationRange_1_1
      encodeURIComponent_example)

section \<open>The status indicator\<close>

lemma lower_unit_not_upper:
  "\<not> (65 \<le> (of_char (lower_unit c) :: nat) \<and> (of_char (lower_unit c) :: nat) \<le> 90)"
proof -
  have "(of_char c :: nat) < 256"
    by simp
  then show ?thesis
    by (auto simp: lower_unit_def Let_def)
qed

lemma toLowerCase_no_upper:
  assumes "toLowerCase v = k" and "x \<in> set k"
  shows "\<not> (65 \<le> (of_char x :: nat) \<and> (of_char x :: nat) \<le> 90)"
proof -
  from assms obtain c where "x = lower_unit c"
    by (auto simp: toLowerCase_def)
  then show ?thesis
    by (simp only: lower_unit_not_upper not_False_eq_True)
qed

lemma toLowerCase_not_inherited:
  assumes "toLowerCase v \<noteq> ''constructor''" and "toLowerCase v \<noteq> ''__proto__''"
  shows "toLowerCase v \<notin> set Object_prototype"
proof -
  have "toLowerCase v \<noteq> ''__defineGetter__''"
    using toLowerCase_no_upper [of v "''__defineGetter__''" "CHR ''G''"] by auto
  moreover have "toLowerCase v \<noteq> ''__defineSetter__''"
    using toLowerCase_no_upper [of v "''__defineSetter__''" "CHR ''S''"] by auto
  moreover have "toLowerCase v \<noteq> ''hasOwnProperty''"
    using toLowerCase_no_upper [of v "''hasOwnProperty''" "CHR ''O''"] by auto
  moreover have "toLowerCase v \<noteq> ''__lookupGetter__''"
    using toLowerCase_no_upper [of v "''__lookupGetter__''" "CHR ''G''"] by auto
  moreover have "toLowerCase v \<noteq> ''__lookupSetter__''"
    using toLowerCase_no_upper [of v "''__lookupSetter__''" "CHR ''S''"] by auto
  moreover have "toLowerCase v \<noteq> ''isPrototypeOf''"
    using toLowerCase_no_upper [of v "''isPrototypeOf''" "CHR ''P''"] by auto
  moreover have "toLowerCase v \<noteq> ''propertyIsEnumerable''"
    using toLowerCase_no_upper [of v "''propertyIsEnumerable''" "CHR ''I''"] by auto
  moreover have "toLowerCase v \<noteq> ''toString''"
    using toLowerCase_no_upper [of v "''toString''" "CHR ''S''"] by auto
  moreover have "toLowerCase v \<noteq> ''valueOf''"
    using toLowerCase_no_upper [of v "''valueOf''" "CHR ''O''"] by auto
  moreover have "toLowerCase v \<noteq> ''toLocaleString''"
    using toLowerCase_no_upper [of v "''toLocaleString''" "CHR ''L''"] by auto
  ultimately show ?thesis
    using assms by (simp add: Object_prototype_def)
qed

lemma statusStyle_own:
  assumes "map_of STATUS_STYLES (toLowerCase v) = Some style" and "style \<noteq> []"
  shows "statusStyle (Some v) = Str style"
  using assms by (simp add: statusStyle_def status_key_def get_property_def truthy_def)

lemma statusStyle_default:
  assumes "toLowerCase v \<noteq> ''alive''" and "toLowerCase v \<noteq> ''dead''"
    and "toLowerCase v \<noteq> ''unknown''"
    and "toLowerCase v \<noteq> ''constructor''" and "toLowerCase v \<noteq> ''__proto__''"
  shows "statusStyle (Some v) = Str ''bg-gray-500 shadow-gray-500/30''"
proof -
  have "map_of STATUS_STYLES (toLowerCase v) = None"
    using assms by (simp add: STATUS_STYLES_def)
  moreover have "toLowerCase v \<notin> set Object_prototype"
    using assms by (simp add: toLowerCase_not_inherited)
  ultimately have "get_property STATUS_STYLES (toLowerCase v) = Undefined"
    by (simp add: get_property_def)
  moreover have "get_property STATUS_STYLES ''unknown'' = Str ''bg-gray-500 shadow-gray-500/30''"
    by (simp add: get_property_def STATUS_STYLES_def)
  ultimately show ?thesis
    by (simp add: statusStyle_def status_key_def truthy_def)
qed

lemma statusStyle_missing: "statusStyle None = Str ''bg-gray-500 shadow-gray-500/30''"
  by (simp add: statusStyle_def status_key_def get_property_def STATUS_STYLES_def
      Object_prototype_def truthy_def)

text \<open>
  Where the lookup falls back as written: a status whose lower-case form is one of the
  three entries gets that entry's styling, and a missing status, like every unrecognised
  status whose lower-case form is not an inherited property name, gets the
  \<^verbatim>\<open>unknown\<close> styling.
\<close>

lemma statusStyle_table:
  "(toLowerCase v = ''alive''
      \<longrightarrow> statusStyle (Some v) = Str ''bg-emerald-500 shadow-emerald-500/30'')
   \<and> (toLowerCase v = ''dead'' \<longrightarrow> statusStyle (Some v) = Str ''bg-red-500 shadow-red-500/30'')
   \<and> (toLowerCase v = ''unknown''
      \<longrightarrow> statusStyle (Some v) = Str ''bg-gray-500 shadow-gray-500/30'')
   \<and> statusStyle None = Str ''bg-gray-500 shadow-gray-500/30''
   \<and> (toLowerCase v \<noteq> ''alive'' \<and> toLowerCase v \<noteq> ''dead'' \<and> toLowerCase v \<noteq> ''unknown''
       \<and> toLowerCase v \<noteq> ''constructor'' \<and> toLowerCase v \<noteq> ''__proto__''
      \<longrightarrow> statusStyle (Some v) = Str ''bg-gray-500 shadow-gray-500/30'')"
proof -
  have "statusStyle (Some v) = Str ''bg-emerald-500 shadow-emerald-500/30''"
    if "toLowerCase v = ''alive''"
    by (rule statusStyle_own) (simp_all add: that STATUS_STYLES_def)
  moreover have "statusStyle (Some v) = Str ''bg-red-500 shadow-red-500/30''"
    if "toLowerCase v = ''dead''"
    by (rule statusStyle_own) (simp_all add: that STATUS_STYLES_def)
  moreover have "statusStyle (Some v) = Str ''bg-gray-500 shadow-gray-500/30''"
    if "toLowerCase v = ''unknown''"
    by (rule statusStyle_own) (simp_all add: that STATUS_STYLES_def)
  ultimately show ?thesis
    using statusStyle_missing statusStyle_default [of v] by blast
qed

lemma statusStyle_examples:
  "statusStyle (Some ''ALIVE'') = Str ''bg-emerald-500 shadow-emerald-500/30''
   \<and> statusStyle (Some ''Dead'') = Str ''bg-red-500 shadow-red-500/30''
   \<and> statusStyle (Some ''unKnown'') = Str ''bg-gray-500 shadow-gray-500/30''
   \<and> statusStyle (Some ''Zombie'') = Str ''bg-gray-500 shadow-gray-500/30''"
proof -
  have lower: "toLowerCase ''ALIVE'' = ''alive''" "toLowerCase ''Dead'' = ''dead''"
    "toLowerCase ''unKnown'' = ''unknown''" "toLowerCase ''Zombie'' = ''zombie''"
    by code_simp+
  show ?thesis
    using statusStyle_table [of "''ALIVE''"] statusStyle_table [of "''Dead''"]
      statusStyle_table [of "''unKnown''"] statusStyle_table [of "''Zombie''"]
    by (simp add: lower)
qed

text \<open>
  C7 says that every status outside \<^verbatim>\<open>alive\<close>, \<^verbatim>\<open>dead\<close> and \<^verbatim>\<open>unknown\<close> gets the
  \<^verbatim>\<open>unknown\<close> styling. The code does not do so for the statuses \<^verbatim>\<open>constructor\<close> and
  \<^verbatim>\<open>__proto__\<close>, in any letter case: the lookup finds the property every object
  inherits, which is truthy, so \<^verbatim>\<open>|| STATUS_STYLES.unknown\<close> is not taken and the class
  is the text of that inherited value. Any other unrecognised status, such as
  \<^verbatim>\<open>Zombie\<close>, does get the \<^verbatim>\<open>unknown\<close> styling.
\<close>

theorem status_lookup_inherited:
  "toLowerCase ''Constructor'' = ''constructor''
   \<and> ''constructor'' \<noteq> ''alive'' \<and> ''constructor'' \<noteq> ''dead''
   \<and> ''constructor'' \<noteq> ''unknown''
   \<and> statusStyle (Some ''Constructor'') = Inherited ''constructor''
   \<and> statusStyle (Some ''Constructor'') \<noteq> Str ''bg-gray-500 shadow-gray-500/30''
   \<and> statusStyle (Some ''constructor'') = Inherited ''constructor''
   \<and> statusStyle (Some ''__proto__'') = Inherited ''__proto__''
   \<and> statusStyle (Some ''Zombie'') = Str ''bg-gray-500 shadow-gray-500/30''"
proof -
  have lower: "toLowerCase ''Constructor'' = ''constructor''"
    "toLowerCase ''constructor'' = ''constructor''"
    "toLowerCase ''__proto__'' = ''__proto__''"
    by code_simp+
  have "statusStyle (Some ''Zombie'') = Str ''bg-gray-500 shadow-gray-500/30''"
    using statusStyle_examples by simp
  then show ?thesis
    by (simp add: lower statusStyle_def status_key_def get_property_def STATUS_STYLES_def
        Object_prototype_def truthy_def)
qed

end
